theory Spec2Isabelle
  imports Complex_Main "HOL-Library.Word"
begin

section \<open>PID fan controller (fancontrol.c)\<close>

text \<open>
  The program is modelled twice. The first model is exact: a \<open>float\<close> (and the
  \<open>double\<close> constants it is compared with) is a \<open>real\<close>, every value is finite and
  nothing is rounded, and an \<open>int\<close> is an \<open>int\<close>, so that \<open>max_speed - min_speed\<close> is the
  difference C defines when it does not overflow. The second model, further down, is
  the arithmetic of the machine: binary32 and binary64 values with rounding, infinities
  and NaN, and the conversions and the \<open>int\<close> subtraction with the inputs C leaves
  undefined. It carries the properties that depend on rounding or on NaN. A \<open>size_t\<close>
  is a 64-bit word, whose subtraction wraps around as unsigned arithmetic does in C.
\<close>

subsection \<open>The PID controller\<close>

record PIDController =
  Kp :: real
  Ki :: real
  Kd :: real
  integral :: real
  prev_error :: real

text \<open>The process-wide gains \<open>Kp\<close>, \<open>Ki\<close>, \<open>Kd\<close> that \<open>calculate_speed_set\<close> reads.\<close>

record gains =
  g_Kp :: real
  g_Ki :: real
  g_Kd :: real

definition default_gains :: gains where
  "default_gains = \<lparr>g_Kp = 5, g_Ki = 1, g_Kd = 0.01\<rparr>"

definition PID_Init :: "PIDController \<Rightarrow> real \<Rightarrow> real \<Rightarrow> real \<Rightarrow> PIDController" where
  "PID_Init pid kp ki kd =
     pid\<lparr>Kp := kp, Ki := ki, Kd := kd, integral := 0, prev_error := 0\<rparr>"

text \<open>
  \<open>PID_Calculate\<close> updates the controller through its pointer and returns the output;
  the model returns the output together with the updated controller.
\<close>

definition PID_Calculate ::
  "PIDController \<Rightarrow> real \<Rightarrow> real \<Rightarrow> real \<Rightarrow> real \<times> PIDController" where
  "PID_Calculate pid setpoint actual_value dt =
     (let error = actual_value - setpoint;
          pid1 = pid\<lparr>integral := integral pid + error * dt\<rparr>;
          pid2 = (if integral pid1 > 100 then pid1\<lparr>integral := 100\<rparr> else pid1);
          pid3 = (if integral pid2 < 0 then pid2\<lparr>integral := 0\<rparr> else pid2);
          derivative = (error - prev_error pid3) / dt;
          pid4 = pid3\<lparr>prev_error := error\<rparr>
      in (Kp pid4 * error + Ki pid4 * integral pid4 + Kd pid4 * derivative, pid4))"

subsection \<open>Mapping the output to a fan speed\<close>

text \<open>The conversion \<open>(int) x\<close> of a floating value discards the fractional part.\<close>

definition c_trunc :: "real \<Rightarrow> int" where
  "c_trunc x = (if x < 0 then \<lceil>x\<rceil> else \<lfloor>x\<rfloor>)"

text \<open>
  The second half of \<open>calculate_speed_set\<close>, from the clamp of the PID output to the
  \<open>return\<close>: it depends on the output and the two speeds only.
\<close>

definition speed_of_output :: "real \<Rightarrow> int \<Rightarrow> int \<Rightarrow> int" where
  "speed_of_output output max_speed min_speed =
     (let pid_output = (if output < 0 then 0 else if output > 100 then 100 else output);
          percentage = pid_output / 100;
          fan_speed_float =
            (if percentage \<le> 0 then 0
             else real_of_int min_speed + percentage * real_of_int (max_speed - min_speed));
          fan_speed_set = c_trunc (fan_speed_float + 0.5)
      in if fan_speed_set > max_speed then max_speed
         else if fan_speed_set < 0 then 0
         else fan_speed_set)"

text \<open>
  The function-local statics of \<open>calculate_speed_set\<close>. C starts them at zero, so the
  controller is initialised by the first call.
\<close>

record speed_static =
  pid :: PIDController
  initialized :: bool

definition static_start :: speed_static where
  "static_start =
     \<lparr>pid = \<lparr>Kp = 0, Ki = 0, Kd = 0, integral = 0, prev_error = 0\<rparr>, initialized = False\<rparr>"

definition ensure_init :: "gains \<Rightarrow> speed_static \<Rightarrow> speed_static" where
  "ensure_init g st =
     (if \<not> initialized st
      then st\<lparr>pid := PID_Init (pid st) (g_Kp g) (g_Ki g) (g_Kd g), initialized := True\<rparr>
      else st)"

definition calculate_speed_set ::
  "gains \<Rightarrow> speed_static \<Rightarrow> real \<Rightarrow> int \<Rightarrow> int \<Rightarrow> int \<Rightarrow> int \<Rightarrow> int \<times> speed_static" where
  "calculate_speed_set g st current_temp max_temp target_temp max_speed min_speed =
     (let st1 = ensure_init g st;
          setpoint = real_of_int target_temp;
          (output, pid') = PID_Calculate (pid st1) setpoint current_temp 1
      in (speed_of_output output max_speed min_speed, st1\<lparr>pid := pid'\<rparr>))"


text \<open>The final clamp of \<open>calculate_speed_set\<close> on its own, for the proofs.\<close>

definition final_clamp :: "int \<Rightarrow> int \<Rightarrow> int" where
  "final_clamp max_speed fan_speed_set =
     (if fan_speed_set > max_speed then max_speed
      else if fan_speed_set < 0 then 0
      else fan_speed_set)"

subsection \<open>The temperature log\<close>

type_synonym size_t = "64 word"

text \<open>
  The log file is the list of its lines, newest first. \<open>readable\<close> and \<open>writable\<close> say
  whether the two \<open>fopen\<close> calls succeed, and \<open>new_line\<close> is the line that
  \<open>snprintf\<close> formats from the clock and the temperature. \<open>log_interval\<close> is the
  process-wide setting.
\<close>

definition log_temperature ::
  "int \<Rightarrow> bool \<Rightarrow> bool \<Rightarrow> string \<Rightarrow> string list \<Rightarrow> string list" where
  "log_temperature log_interval readable writable new_line file =
     (let lines = (if readable then file else []);
          line_count = (of_nat (length lines) :: size_t);
          max_lines = (if log_interval > 0 then of_int (3600 div log_interval) else 360 :: size_t)
      in if writable
         then (let lines_to_write =
                     (if line_count < max_lines - 1 then line_count else max_lines - 1)
               in new_line # take (unat lines_to_write) lines)
         else file)"

text \<open>A sequence of log events, each with its two \<open>fopen\<close> results and its line.\<close>

fun log_events :: "int \<Rightarrow> (bool \<times> bool \<times> string) list \<Rightarrow> string list \<Rightarrow> string list" where
  "log_events log_interval [] file = file"
| "log_events log_interval ((readable, writable, new_line) # evs) file =
     log_events log_interval evs (log_temperature log_interval readable writable new_line file)"

subsection \<open>Reading the temperature\<close>













subsection \<open>Binary floating point\<close>

text \<open>
  A value of a floating type is a finite number, an infinity or NaN. The two zeros are
  one value: they differ only as divisors, and the program divides by the constants
  \<open>1.0\<close> and \<open>100.0\<close> only. The type holds every real number; the values the program
  computes are the ones the rounding functions return.
\<close>

datatype c_float = Fin real | PInf | NInf | NaN

text \<open>
  Rounding to nearest, ties to even. \<open>exponent_of\<close> is the binary exponent of a number,
  kept between the smallest and the largest exponent of the format, so that numbers
  below the normal range are rounded on the grid of the subnormal numbers.
  \<open>round_real\<close> rounds to \<open>p\<close> significant bits and \<open>round_to\<close> turns a result beyond
  the largest finite number into an infinity. binary32 has 24 bits and the exponents
  \<open>- 126\<close> to 127, binary64 has 53 bits and the exponents \<open>- 1022\<close> to 1023.
\<close>

definition round_even :: "real \<Rightarrow> int" where
  "round_even q =
     (let f = \<lfloor>q\<rfloor>; d = q - of_int f
      in if d < 1 / 2 then f else if 1 / 2 < d then f + 1 else if even f then f else f + 1)"

fun exponent_search :: "nat \<Rightarrow> int \<Rightarrow> real \<Rightarrow> int" where
  "exponent_search 0 lo x = lo"
| "exponent_search (Suc n) lo x =
     (if 2 powi (lo + int (Suc n)) \<le> x then lo + int (Suc n) else exponent_search n lo x)"

definition exponent_of :: "int \<Rightarrow> int \<Rightarrow> real \<Rightarrow> int" where
  "exponent_of emin emax x = exponent_search (nat (emax - emin)) emin \<bar>x\<bar>"

definition round_real :: "nat \<Rightarrow> int \<Rightarrow> int \<Rightarrow> real \<Rightarrow> real" where
  "round_real p emin emax x =
     (let u = 2 powi (exponent_of emin emax x - int p + 1)
      in of_int (round_even (x / u)) * u)"

definition round_to :: "nat \<Rightarrow> int \<Rightarrow> int \<Rightarrow> real \<Rightarrow> c_float" where
  "round_to p emin emax x =
     (let r = round_real p emin emax x
      in if 2 powi (emax + 1) \<le> r then PInf
         else if r \<le> - (2 powi (emax + 1)) then NInf
         else Fin r)"

definition float32 :: "real \<Rightarrow> c_float" where
  "float32 = round_to 24 (- 126) 127"

definition float64 :: "real \<Rightarrow> c_float" where
  "float64 = round_to 53 (- 1022) 1023"

text \<open>
  The operations of IEEE 754, with the rounding of the type the C expression has: each
  operation computes the exact result and rounds it once (no excess precision and no
  fused multiply-add). Comparisons with NaN are false.
\<close>

fun f_neg :: "c_float \<Rightarrow> c_float" where
  "f_neg (Fin x) = Fin (- x)"
| "f_neg PInf = NInf"
| "f_neg NInf = PInf"
| "f_neg NaN = NaN"

fun f_add :: "(real \<Rightarrow> c_float) \<Rightarrow> c_float \<Rightarrow> c_float \<Rightarrow> c_float" where
  "f_add rnd (Fin x) (Fin y) = rnd (x + y)"
| "f_add rnd NaN b = NaN"
| "f_add rnd a NaN = NaN"
| "f_add rnd PInf NInf = NaN"
| "f_add rnd NInf PInf = NaN"
| "f_add rnd PInf b = PInf"
| "f_add rnd a PInf = PInf"
| "f_add rnd NInf b = NInf"
| "f_add rnd a NInf = NInf"

definition f_sub :: "(real \<Rightarrow> c_float) \<Rightarrow> c_float \<Rightarrow> c_float \<Rightarrow> c_float" where
  "f_sub rnd a b = f_add rnd a (f_neg b)"

fun f_mul :: "(real \<Rightarrow> c_float) \<Rightarrow> c_float \<Rightarrow> c_float \<Rightarrow> c_float" where
  "f_mul rnd (Fin x) (Fin y) = rnd (x * y)"
| "f_mul rnd NaN b = NaN"
| "f_mul rnd a NaN = NaN"
| "f_mul rnd (Fin x) PInf = (if x = 0 then NaN else if 0 < x then PInf else NInf)"
| "f_mul rnd (Fin x) NInf = (if x = 0 then NaN else if 0 < x then NInf else PInf)"
| "f_mul rnd PInf (Fin y) = (if y = 0 then NaN else if 0 < y then PInf else NInf)"
| "f_mul rnd NInf (Fin y) = (if y = 0 then NaN else if 0 < y then NInf else PInf)"
| "f_mul rnd PInf PInf = PInf"
| "f_mul rnd PInf NInf = NInf"
| "f_mul rnd NInf PInf = NInf"
| "f_mul rnd NInf NInf = PInf"

fun f_div :: "(real \<Rightarrow> c_float) \<Rightarrow> c_float \<Rightarrow> c_float \<Rightarrow> c_float" where
  "f_div rnd (Fin x) (Fin y) =
     (if y = 0 then (if x = 0 then NaN else if 0 < x then PInf else NInf) else rnd (x / y))"
| "f_div rnd NaN b = NaN"
| "f_div rnd a NaN = NaN"
| "f_div rnd (Fin x) b = Fin 0"
| "f_div rnd PInf (Fin y) = (if 0 \<le> y then PInf else NInf)"
| "f_div rnd NInf (Fin y) = (if 0 \<le> y then NInf else PInf)"
| "f_div rnd a b = NaN"

fun f_less :: "c_float \<Rightarrow> c_float \<Rightarrow> bool" where
  "f_less (Fin x) (Fin y) = (x < y)"
| "f_less NaN b = False"
| "f_less a NaN = False"
| "f_less NInf NInf = False"
| "f_less NInf b = True"
| "f_less PInf b = False"
| "f_less a PInf = True"
| "f_less a NInf = False"

fun f_le :: "c_float \<Rightarrow> c_float \<Rightarrow> bool" where
  "f_le (Fin x) (Fin y) = (x \<le> y)"
| "f_le NaN b = False"
| "f_le a NaN = False"
| "f_le NInf b = True"
| "f_le a PInf = True"
| "f_le a b = False"

text \<open>The conversion of a \<open>double\<close> to \<open>float\<close>.\<close>

fun to_float32 :: "c_float \<Rightarrow> c_float" where
  "to_float32 (Fin x) = float32 x"
| "to_float32 a = a"

text \<open>
  What C leaves undefined is a result of its own: the conversion \<open>(int) x\<close> of a value
  whose integral part is not an \<open>int\<close> (NaN and the infinities among them), and an
  \<open>int\<close> subtraction that overflows.
\<close>

datatype undefined_behaviour = Signed_overflow | Conversion_out_of_range

definition INT_MIN :: int where "INT_MIN = - 2147483648"

definition INT_MAX :: int where "INT_MAX = 2147483647"

fun int_of_float :: "c_float \<Rightarrow> undefined_behaviour + int" where
  "int_of_float (Fin x) =
     (if INT_MIN \<le> c_trunc x \<and> c_trunc x \<le> INT_MAX then Inr (c_trunc x)
      else Inl Conversion_out_of_range)"
| "int_of_float a = Inl Conversion_out_of_range"

definition int_sub :: "int \<Rightarrow> int \<Rightarrow> undefined_behaviour + int" where
  "int_sub a b = (if INT_MIN \<le> a - b \<and> a - b \<le> INT_MAX then Inr (a - b) else Inl Signed_overflow)"

subsection \<open>The controller in binary floating point\<close>

text \<open>
  The same functions once more, every \<open>float\<close> expression rounded to binary32 and every
  expression with a \<open>double\<close> constant (\<open>100.0\<close>, \<open>0.5\<close>) to binary64. The parameter
  \<open>pid\<close> of the two PID functions is \<open>ctl\<close> here, since \<open>pid\<close> is a field of the static
  state above.
\<close>

record PIDController_f32 =
  Kp_f32 :: c_float
  Ki_f32 :: c_float
  Kd_f32 :: c_float
  integral_f32 :: c_float
  prev_error_f32 :: c_float

definition PID_Init_f32 ::
  "PIDController_f32 \<Rightarrow> c_float \<Rightarrow> c_float \<Rightarrow> c_float \<Rightarrow> PIDController_f32" where
  "PID_Init_f32 ctl kp ki kd =
     ctl\<lparr>Kp_f32 := kp, Ki_f32 := ki, Kd_f32 := kd, integral_f32 := Fin 0, prev_error_f32 := Fin 0\<rparr>"

definition PID_Calculate_f32 ::
  "PIDController_f32 \<Rightarrow> c_float \<Rightarrow> c_float \<Rightarrow> c_float \<Rightarrow> c_float \<times> PIDController_f32" where
  "PID_Calculate_f32 ctl setpoint actual_value dt =
     (let error = f_sub float32 actual_value setpoint;
          pid1 = ctl\<lparr>integral_f32 := f_add float32 (integral_f32 ctl) (f_mul float32 error dt)\<rparr>;
          pid2 = (if f_less (Fin 100) (integral_f32 pid1) then pid1\<lparr>integral_f32 := Fin 100\<rparr>
                  else pid1);
          pid3 = (if f_less (integral_f32 pid2) (Fin 0) then pid2\<lparr>integral_f32 := Fin 0\<rparr>
                  else pid2);
          derivative = f_div float32 (f_sub float32 error (prev_error_f32 pid3)) dt;
          pid4 = pid3\<lparr>prev_error_f32 := error\<rparr>
      in (f_add float32
            (f_add float32 (f_mul float32 (Kp_f32 pid4) error)
               (f_mul float32 (Ki_f32 pid4) (integral_f32 pid4)))
            (f_mul float32 (Kd_f32 pid4) derivative),
          pid4))"

text \<open>
  In \<open>pid_output / 100.0\<close> the division is a \<open>double\<close> division and its result is
  converted to \<open>float\<close>; in \<open>min_speed + (percentage * (max_speed - min_speed))\<close> the
  difference is an \<open>int\<close>, converted to \<open>float\<close> like \<open>min_speed\<close>; and
  \<open>fan_speed_float + 0.5\<close> is a \<open>double\<close> addition.
\<close>

definition speed_of_output_f32 :: "c_float \<Rightarrow> int \<Rightarrow> int \<Rightarrow> undefined_behaviour + int" where
  "speed_of_output_f32 output max_speed min_speed =
     (let pid_output =
            (if f_less output (Fin 0) then Fin 0
             else if f_less (Fin 100) output then Fin 100
             else output);
          percentage = to_float32 (f_div float64 pid_output (Fin 100))
      in case (if f_le percentage (Fin 0) then Inr (Fin 0)
               else case int_sub max_speed min_speed of
                      Inl u \<Rightarrow> Inl u
                    | Inr d \<Rightarrow>
                        Inr (f_add float32 (float32 (real_of_int min_speed))
                               (f_mul float32 percentage (float32 (real_of_int d))))) of
           Inl u \<Rightarrow> Inl u
         | Inr fan_speed_float \<Rightarrow>
             (case int_of_float (f_add float64 fan_speed_float (Fin 0.5)) of
                Inl u \<Rightarrow> Inl u
              | Inr fan_speed_set \<Rightarrow>
                  Inr (if fan_speed_set > max_speed then max_speed
                       else if fan_speed_set < 0 then 0
                       else fan_speed_set)))"

record gains_f32 =
  g_Kp_f32 :: c_float
  g_Ki_f32 :: c_float
  g_Kd_f32 :: c_float

record speed_static_f32 =
  pid_f32 :: PIDController_f32
  initialized_f32 :: bool

definition static_start_f32 :: speed_static_f32 where
  "static_start_f32 =
     \<lparr>pid_f32 = \<lparr>Kp_f32 = Fin 0, Ki_f32 = Fin 0, Kd_f32 = Fin 0, integral_f32 = Fin 0,
        prev_error_f32 = Fin 0\<rparr>, initialized_f32 = False\<rparr>"

definition ensure_init_f32 :: "gains_f32 \<Rightarrow> speed_static_f32 \<Rightarrow> speed_static_f32" where
  "ensure_init_f32 g st =
     (if \<not> initialized_f32 st
      then st\<lparr>pid_f32 := PID_Init_f32 (pid_f32 st) (g_Kp_f32 g) (g_Ki_f32 g) (g_Kd_f32 g),
              initialized_f32 := True\<rparr>
      else st)"

definition calculate_speed_set_f32 ::
  "gains_f32 \<Rightarrow> speed_static_f32 \<Rightarrow> c_float \<Rightarrow> int \<Rightarrow> int \<Rightarrow> int \<Rightarrow> int \<Rightarrow>
   (undefined_behaviour + int) \<times> speed_static_f32" where
  "calculate_speed_set_f32 g st current_temp max_temp target_temp max_speed min_speed =
     (let st1 = ensure_init_f32 g st;
          setpoint = float32 (real_of_int target_temp);
          (output, pid') = PID_Calculate_f32 (pid_f32 st1) setpoint current_temp (Fin 1)
      in (speed_of_output_f32 output max_speed min_speed, st1\<lparr>pid_f32 := pid'\<rparr>))"

text \<open>A run of \<open>PID_Calculate\<close> calls with \<open>dt = 1\<close>, each with its setpoint and measurement.\<close>

fun pid_steps_f32 :: "PIDController_f32 \<Rightarrow> (c_float \<times> c_float) list \<Rightarrow> PIDController_f32" where
  "pid_steps_f32 p [] = p"
| "pid_steps_f32 p ((setpoint, actual_value) # xs) =
     pid_steps_f32 (snd (PID_Calculate_f32 p setpoint actual_value (Fin 1))) xs"

text \<open>The gains 5, 1 and 0.25, which binary32 holds exactly.\<close>

definition quarter_gains :: gains_f32 where
  "quarter_gains = \<lparr>g_Kp_f32 = Fin 5, g_Ki_f32 = Fin 1, g_Kd_f32 = Fin 0.25\<rparr>"

text \<open>
  For the proofs: the two roundings as functions on the reals, the range of the
  integral, the two clamps, and the percentage, the floating speed and the returned
  speed as the numbers they are when nothing overflows.
\<close>

definition R32 :: "real \<Rightarrow> real" where
  "R32 = round_real 24 (- 126) 127"

definition R64 :: "real \<Rightarrow> real" where
  "R64 = round_real 53 (- 1022) 1023"

definition in_0_100 :: "c_float \<Rightarrow> bool" where
  "in_0_100 a = (f_le (Fin 0) a \<and> f_le a (Fin 100))"

definition clamp_integral :: "c_float \<Rightarrow> c_float" where
  "clamp_integral a =
     (let b = (if f_less (Fin 100) a then Fin 100 else a)
      in if f_less b (Fin 0) then Fin 0 else b)"

definition clamp_output :: "c_float \<Rightarrow> real" where
  "clamp_output output =
     (case output of
        Fin x \<Rightarrow> (if x < 0 then 0 else if 100 < x then 100 else x)
      | PInf \<Rightarrow> 100
      | NInf \<Rightarrow> 0
      | NaN \<Rightarrow> 0)"

definition percentage_f32 :: "c_float \<Rightarrow> real" where
  "percentage_f32 output = R32 (R64 (clamp_output output / 100))"

definition fan_speed_f32 :: "c_float \<Rightarrow> int \<Rightarrow> int \<Rightarrow> real" where
  "fan_speed_f32 output max_speed min_speed =
     (if percentage_f32 output \<le> 0 then 0
      else R32 (R32 (real_of_int min_speed) +
             R32 (percentage_f32 output * R32 (real_of_int (max_speed - min_speed)))))"

definition speed_value :: "c_float \<Rightarrow> int \<Rightarrow> int \<Rightarrow> int" where
  "speed_value output max_speed min_speed =
     final_clamp max_speed (c_trunc (R64 (fan_speed_f32 output max_speed min_speed + 1 / 2)))"


section \<open>Properties of the speed mapping\<close>

lemma c_trunc_mono: "x \<le> y \<Longrightarrow> c_trunc x \<le> c_trunc y"
  unfolding c_trunc_def
  by (auto intro: floor_mono ceiling_mono) (smt (verit) ceiling_le_zero zero_le_floor)

lemma final_clamp_mono:
  "0 \<le> max_speed \<Longrightarrow> v \<le> w \<Longrightarrow> final_clamp max_speed v \<le> final_clamp max_speed w"
  by (simp add: final_clamp_def)

lemma speed_of_output_range:
  "0 \<le> max_speed \<Longrightarrow>
   0 \<le> speed_of_output output max_speed min_speed \<and>
   speed_of_output output max_speed min_speed \<le> max_speed"
  by (simp add: speed_of_output_def Let_def)

lemma speed_of_output_nonpos:
  "output \<le> 0 \<Longrightarrow> 0 \<le> max_speed \<Longrightarrow> speed_of_output output max_speed min_speed = 0"
  by (simp add: speed_of_output_def Let_def c_trunc_def)

lemma calculate_speed_set_parts:
  "snd (calculate_speed_set g st t mt tt ms mn) =
     (ensure_init g st)
       \<lparr>pid := snd (PID_Calculate (pid (ensure_init g st)) (real_of_int tt) t 1)\<rparr>"
  "fst (calculate_speed_set g st t mt tt ms mn) =
     speed_of_output (fst (PID_Calculate (pid (ensure_init g st)) (real_of_int tt) t 1)) ms mn"
  by (simp_all add: calculate_speed_set_def Let_def split: prod.split)

text \<open>
  Claim C1, as amended: whenever \<open>max_speed\<close> is not negative, the mapped speed of every
  PID output, and so the speed \<open>calculate_speed_set\<close> returns in every state and at
  every temperature, lies between 0 and \<open>max_speed\<close>, whatever \<open>min_speed\<close> is.
\<close>

theorem speed_within_limits:
  "0 \<le> max_speed \<Longrightarrow>
   (0 \<le> speed_of_output output max_speed min_speed \<and>
    speed_of_output output max_speed min_speed \<le> max_speed) \<and>
   (0 \<le> fst (calculate_speed_set g st current_temp max_temp target_temp max_speed min_speed) \<and>
    fst (calculate_speed_set g st current_temp max_temp target_temp max_speed min_speed)
      \<le> max_speed)"
  by (simp add: calculate_speed_set_parts speed_of_output_range)

theorem speed_within_limits_witness:
  "(0::int) \<le> 255 \<and>
   0 \<le> fst (calculate_speed_set default_gains static_start 90 120 55 255 35) \<and>
   fst (calculate_speed_set default_gains static_start 90 120 55 255 35) \<le> 255"
proof -
  have h: "(0::int) \<le> 255"
    by simp
  show ?thesis
    using h speed_within_limits [OF h, of 0 35 default_gains static_start 90 120 55]
    by simp
qed

text \<open>
  Claim C1 as stated fails for a negative \<open>max_speed\<close>: the first test of the final
  clamp lowers the speed 0 to \<open>max_speed\<close>, and the second test is its \<open>else\<close>.
\<close>

theorem speed_within_limits_counterexample:
  "fst (calculate_speed_set default_gains static_start 50 120 55 (- 5) 35) = - 5 \<and>
   \<not> 0 \<le> fst (calculate_speed_set default_gains static_start 50 120 55 (- 5) 35)"
  by (simp add: calculate_speed_set_def default_gains_def static_start_def ensure_init_def
      PID_Init_def PID_Calculate_def speed_of_output_def c_trunc_def Let_def)

text \<open>
  Claim C5, as amended: whenever \<open>max_speed\<close> is not negative, a PID output that is zero
  or negative is mapped to the speed 0, whatever \<open>min_speed\<close> is.
\<close>

theorem no_demand_stops_fan:
  "output \<le> 0 \<Longrightarrow> 0 \<le> max_speed \<Longrightarrow> speed_of_output output max_speed min_speed = 0"
  by (rule speed_of_output_nonpos)

theorem no_demand_stops_fan_witness:
  "(- 12.5::real) \<le> 0 \<and> (0::int) \<le> 255 \<and> speed_of_output (- 12.5) 255 35 = 0"
proof -
  have h1: "(- 12.5::real) \<le> 0" and h2: "(0::int) \<le> 255"
    by simp_all
  show ?thesis
    using h1 h2 no_demand_stops_fan [OF h1 h2, of 35] by simp
qed

text \<open>Claim C5 as stated fails for a negative \<open>max_speed\<close>, which is then the result.\<close>

theorem no_demand_stops_fan_counterexample:
  "(0::real) \<le> 0 \<and> speed_of_output 0 (- 1) 35 = - 1 \<and> speed_of_output 0 (- 1) 35 \<noteq> 0"
  by (simp add: speed_of_output_def c_trunc_def Let_def)

text \<open>
  Claim C4: with the gains 5, 1 and 0.01, a fresh controller, the setpoint 55 and the
  measurement 65, one step stores the error 10 and the integral 10, has the derivative
  \<open>(10 - 0) / 1 = 10\<close> and the output 60.1; with the speeds 35 and 255 the mapped speed,
  the truncation of \<open>35 + 0.601 * 220 + 0.5\<close>, is 167.
\<close>

theorem scenario_A:
  "prev_error (snd (PID_Calculate (PID_Init p 5 1 0.01) 55 65 1)) = 10 \<and>
   integral (snd (PID_Calculate (PID_Init p 5 1 0.01) 55 65 1)) = 10 \<and>
   (prev_error (snd (PID_Calculate (PID_Init p 5 1 0.01) 55 65 1))
      - prev_error (PID_Init p 5 1 0.01)) / 1 = 10 \<and>
   fst (PID_Calculate (PID_Init p 5 1 0.01) 55 65 1) = 60.1 \<and>
   c_trunc (35 + 0.601 * 220 + 0.5) = 167 \<and>
   speed_of_output 60.1 255 35 = 167 \<and>
   fst (calculate_speed_set default_gains static_start 65 max_temp 55 255 35) = 167"
  by (simp add: calculate_speed_set_def default_gains_def static_start_def ensure_init_def
      PID_Init_def PID_Calculate_def speed_of_output_def c_trunc_def Let_def)

text \<open>
  Claim C8: \<open>max_temp\<close> has no influence. Two calls that agree on the gains, the state,
  the temperature, the target and the two speeds return the same speed and leave the
  same state, whatever their \<open>max_temp\<close> arguments are.
\<close>

theorem max_temp_unused:
  "calculate_speed_set g st current_temp max_temp1 target_temp max_speed min_speed =
   calculate_speed_set g st current_temp max_temp2 target_temp max_speed min_speed"
  by (simp add: calculate_speed_set_def)

section \<open>Properties of the PID controller\<close>









section \<open>Properties of the temperature log\<close>

lemma max_lines_minus_one:
  assumes "1 \<le> k" "k \<le> 3600"
  shows "unat ((of_int k :: size_t) - 1) = nat k - 1"
proof -
  have "(of_int k :: size_t) - 1 = of_int (k - 1)"
    by simp
  also have "\<dots> = of_nat (nat (k - 1))"
    using assms by simp
  finally have "unat ((of_int k :: size_t) - 1) = nat (k - 1) mod 2 ^ 64"
    by (simp only: unat_of_nat) simp
  moreover have "nat (k - 1) < 2 ^ 64"
    using assms by simp
  ultimately show ?thesis
    using assms by (simp add: nat_diff_distrib)
qed

text \<open>
  For an interval of at most an hour, a log event keeps the log within
  \<open>3600 div log_interval\<close> lines.
\<close>

lemma log_temperature_bound:
  assumes "0 < L" "L \<le> 3600" "length file \<le> nat (3600 div L)"
  shows "length (log_temperature L readable writable new_line file) \<le> nat (3600 div L)"
proof -
  define k where "k = 3600 div L"
  have "L * 1 \<le> 3600"
    using assms(2) by simp
  then have "0 < 3600 div L"
    using assms(1) by (simp add: pos_imp_zdiv_pos_iff)
  then have k1: "1 \<le> k"
    by (simp add: k_def)
  have "3600 div L \<le> 3600 div 1"
    using assms(1) by (intro zdiv_mono2) simp_all
  then have k2: "k \<le> 3600"
    by (simp add: k_def)
  have u: "unat ((of_int k :: size_t) - 1) = nat k - 1"
    using max_lines_minus_one [OF k1 k2] .
  have b: "unat (if (c :: size_t) < of_int k - 1 then c else of_int k - 1) \<le> nat k - 1" for c
    using u by (auto simp: word_less_nat_alt)
  show ?thesis
  proof (cases writable)
    case False
    then show ?thesis
      using assms(3) by (simp add: log_temperature_def Let_def)
  next
    case True
    define ls where "ls = (if readable then file else [])"
    define c where "c = (of_nat (length ls) :: size_t)"
    have "log_temperature L readable writable new_line file =
        new_line # take (unat (if c < of_int k - 1 then c else of_int k - 1)) ls"
      using True assms(1) by (simp add: log_temperature_def Let_def k_def ls_def c_def)
    then have "length (log_temperature L readable writable new_line file)
        \<le> Suc (unat (if c < of_int k - 1 then c else of_int k - 1))"
      by simp
    also have "\<dots> \<le> Suc (nat k - 1)"
      using b [of c] by simp
    also have "\<dots> = nat k"
      using k1 by simp
    finally show ?thesis
      by (simp add: k_def)
  qed
qed

lemma log_events_bound:
  assumes "0 < L" "L \<le> 3600"
  shows "length old \<le> nat (3600 div L) \<Longrightarrow>
    length (log_events L evs old) \<le> nat (3600 div L)"
proof (induction evs arbitrary: old)
  case Nil
  then show ?case by simp
next
  case (Cons e evs)
  obtain r w nl where e: "e = (r, w, nl)"
    by (cases e)
  show ?case
    unfolding e log_events.simps
    by (rule Cons.IH) (rule log_temperature_bound [OF assms Cons.prems])
qed

text \<open>
  Claim C3 fails on the code for an interval above an hour. With \<open>log_interval = 3601\<close>
  the limit \<open>max_lines\<close> is 0, the unsigned \<open>max_lines - 1\<close> wraps around to the
  largest \<open>size_t\<close>, and every old line is written back: after two log events on an
  empty log the log has two lines, above \<open>max 1 (3600 div 3601) = 1\<close>.
\<close>

theorem log_exceeds_capacity:
  "(0::int) < 3601 \<and>
   log_events 3601 [(True, True, ''first''), (True, True, ''second'')] [] =
     [''second'', ''first''] \<and>
   max 1 (3600 div 3601) < int (length
     (log_events 3601 [(True, True, ''first''), (True, True, ''second'')] []))"
  by code_simp

section \<open>Properties of the temperature reading\<close>














section \<open>Properties of the rounding\<close>

lemma round_even_int: "round_even (of_int n) = n"
  by (simp add: round_even_def)

lemma round_even_range: "\<lfloor>q\<rfloor> \<le> round_even q \<and> round_even q \<le> \<lfloor>q\<rfloor> + 1"
  by (simp add: round_even_def Let_def)

lemma round_even_mono:
  assumes "q \<le> r"
  shows "round_even q \<le> round_even r"
proof (cases "\<lfloor>q\<rfloor> = \<lfloor>r\<rfloor>")
  case True
  have "q - of_int \<lfloor>q\<rfloor> \<le> r - of_int \<lfloor>r\<rfloor>"
    using assms True by simp
  then show ?thesis
    using True by (auto simp: round_even_def Let_def)
next
  case False
  then have "\<lfloor>q\<rfloor> + 1 \<le> \<lfloor>r\<rfloor>"
    using floor_mono [OF assms] by linarith
  then show ?thesis
    using round_even_range [of q] round_even_range [of r] by linarith
qed

lemma exponent_search_bounds:
  "lo \<le> exponent_search n lo x \<and> exponent_search n lo x \<le> lo + int n"
  by (induction n) auto

lemma exponent_search_lower:
  "lo < exponent_search n lo x \<Longrightarrow> 2 powi (exponent_search n lo x) \<le> x"
  by (induction n) (auto split: if_splits)

lemma exponent_search_upper:
  "exponent_search n lo x < lo + int n \<Longrightarrow> x < 2 powi (exponent_search n lo x + 1)"
proof (induction n)
  case 0
  then show ?case by simp
next
  case (Suc n)
  show ?case
  proof (cases "2 powi (lo + int (Suc n)) \<le> x")
    case True
    then show ?thesis using Suc.prems by simp
  next
    case False
    then have e: "exponent_search (Suc n) lo x = exponent_search n lo x"
      by simp
    show ?thesis
    proof (cases "exponent_search n lo x < lo + int n")
      case True
      then show ?thesis using Suc.IH e by simp
    next
      case top: False
      then have "exponent_search n lo x = lo + int n"
        using exponent_search_bounds [of lo n x] by linarith
      moreover have "lo + int (Suc n) = lo + int n + 1"
        by simp
      ultimately show ?thesis
        using False unfolding e by (simp only: not_le)
    qed
  qed
qed

lemma exponent_of_bounds:
  "emin \<le> emax \<Longrightarrow> emin \<le> exponent_of emin emax x \<and> exponent_of emin emax x \<le> emax"
  using exponent_search_bounds [of emin "nat (emax - emin)" "\<bar>x\<bar>"]
  by (simp add: exponent_of_def)

lemma exponent_of_lower:
  "emin < exponent_of emin emax x \<Longrightarrow> 2 powi (exponent_of emin emax x) \<le> \<bar>x\<bar>"
  unfolding exponent_of_def by (rule exponent_search_lower)

lemma exponent_of_upper:
  "emin \<le> emax \<Longrightarrow> exponent_of emin emax x < emax \<Longrightarrow>
   \<bar>x\<bar> < 2 powi (exponent_of emin emax x + 1)"
  unfolding exponent_of_def by (rule exponent_search_upper) simp

lemma exponent_of_eq:
  assumes "emin \<le> e" "e \<le> emax"
    and lo: "emin < e \<Longrightarrow> 2 powi e \<le> \<bar>x\<bar>"
    and hi: "e < emax \<Longrightarrow> \<bar>x\<bar> < 2 powi (e + 1)"
  shows "exponent_of emin emax x = e"
proof (rule ccontr)
  assume ne: "exponent_of emin emax x \<noteq> e"
  define E where "E = exponent_of emin emax x"
  have b: "emin \<le> E" "E \<le> emax"
    using exponent_of_bounds [of emin emax x] assms(1,2) by (simp_all add: E_def)
  show False
  proof (cases "E < e")
    case True
    then have "\<bar>x\<bar> < 2 powi (E + 1)"
      using exponent_of_upper [of emin emax x] assms(1,2) by (simp add: E_def)
    also have "\<dots> \<le> 2 powi e"
      using True by (intro power_int_increasing) simp_all
    finally show False
      using lo True b by simp
  next
    case False
    then have gt: "e < E"
      using ne by (simp add: E_def)
    then have "2 powi E \<le> \<bar>x\<bar>"
      using exponent_of_lower [of emin emax x] assms(1) by (simp add: E_def)
    moreover have "\<bar>x\<bar> < 2 powi (e + 1)"
      using hi gt b by simp
    moreover have "(2::real) powi (e + 1) \<le> 2 powi E"
      using gt by (intro power_int_increasing) simp_all
    ultimately show False by linarith
  qed
qed

lemma exponent_of_mono:
  assumes "emin \<le> emax" "\<bar>x\<bar> \<le> \<bar>y\<bar>"
  shows "exponent_of emin emax x \<le> exponent_of emin emax y"
proof (rule ccontr)
  assume "\<not> ?thesis"
  then have gt: "exponent_of emin emax y < exponent_of emin emax x"
    by simp
  have bx: "exponent_of emin emax x \<le> emax" and "emin \<le> exponent_of emin emax y"
    using exponent_of_bounds [OF assms(1)] by simp_all
  then have "2 powi (exponent_of emin emax x) \<le> \<bar>x\<bar>"
    using gt by (intro exponent_of_lower) simp
  moreover have "\<bar>y\<bar> < 2 powi (exponent_of emin emax y + 1)"
    using gt bx by (intro exponent_of_upper [OF assms(1)]) simp
  moreover have "(2::real) powi (exponent_of emin emax y + 1) \<le> 2 powi (exponent_of emin emax x)"
    using gt by (intro power_int_increasing) simp_all
  ultimately show False
    using assms(2) by linarith
qed

lemma ulp_top: "(2::real) powi (e + 1) = 2 powi (e - int p + 1) * 2 ^ p"
proof -
  have "(2::real) powi (e + 1) = 2 powi ((e - int p + 1) + int p)"
    by simp
  also have "\<dots> = 2 powi (e - int p + 1) * 2 powi (int p)"
    by (rule power_int_add) simp
  finally show ?thesis by simp
qed

lemma ulp_bottom: "1 \<le> p \<Longrightarrow> (2::real) powi e = 2 powi (e - int p + 1) * 2 ^ (p - 1)"
proof -
  assume p: "1 \<le> p"
  have "(2::real) powi e = 2 powi ((e - int p + 1) + int (p - 1))"
    using p by (simp add: of_nat_diff)
  also have "\<dots> = 2 powi (e - int p + 1) * 2 powi (int (p - 1))"
    by (rule power_int_add) simp
  finally show ?thesis by simp
qed

lemma round_real_sign:
  "0 \<le> x \<Longrightarrow> 0 \<le> round_real p emin emax x"
  "x \<le> 0 \<Longrightarrow> round_real p emin emax x \<le> 0"
proof -
  define u :: real where "u = 2 powi (exponent_of emin emax x - int p + 1)"
  have u: "0 < u" by (simp add: u_def)
  { assume "0 \<le> x"
    then have "0 \<le> x / u" using u by simp
    from round_even_mono [OF this] have "0 \<le> round_even (x / u)"
      using round_even_int [of 0] by simp
    then show "0 \<le> round_real p emin emax x"
      using u by (simp add: round_real_def u_def [symmetric] Let_def) }
  { assume "x \<le> 0"
    then have "x / u \<le> 0" using u by (simp add: divide_le_0_iff)
    from round_even_mono [OF this] have "round_even (x / u) \<le> 0"
      using round_even_int [of 0] by simp
    then show "round_real p emin emax x \<le> 0"
      using u by (simp add: round_real_def u_def [symmetric] Let_def mult_le_0_iff) }
qed

lemma round_real_below_top:
  assumes "emin \<le> emax" "exponent_of emin emax x < emax"
  shows "round_real p emin emax x \<le> 2 powi (exponent_of emin emax x + 1)"
    and "- (2 powi (exponent_of emin emax x + 1)) \<le> round_real p emin emax x"
proof -
  define e where "e = exponent_of emin emax x"
  define u :: real where "u = 2 powi (e - int p + 1)"
  have u: "0 < u" by (simp add: u_def)
  have top: "(2::real) powi (e + 1) = u * 2 ^ p"
    unfolding u_def by (rule ulp_top)
  have ax: "\<bar>x\<bar> < u * 2 ^ p"
    using exponent_of_upper [OF assms] by (simp add: e_def [symmetric] top)
  have r: "round_real p emin emax x = of_int (round_even (x / u)) * u"
    by (simp add: round_real_def Let_def e_def u_def)
  have "x / u \<le> of_int (2 ^ p)"
    using ax u by (simp add: pos_divide_le_eq mult.commute)
  from round_even_mono [OF this] have "round_even (x / u) \<le> 2 ^ p"
    by (simp only: round_even_int)
  then have "real_of_int (round_even (x / u)) \<le> 2 ^ p"
    by (metis of_int_le_iff of_int_numeral of_int_power)
  then have "real_of_int (round_even (x / u)) * u \<le> 2 ^ p * u"
    using u by (intro mult_right_mono) simp_all
  then show "round_real p emin emax x \<le> 2 powi (e + 1)"
    by (simp add: r top mult.commute)
  have "of_int (- (2 ^ p)) \<le> x / u"
    using ax u by (simp add: pos_le_divide_eq mult.commute)
  from round_even_mono [OF this] have "- (2 ^ p) \<le> round_even (x / u)"
    by (simp only: round_even_int)
  then have "- (2 ^ p) \<le> real_of_int (round_even (x / u))"
    by (metis of_int_le_iff of_int_minus of_int_numeral of_int_power)
  then have "- (2 ^ p) * u \<le> real_of_int (round_even (x / u)) * u"
    using u by (intro mult_right_mono) simp_all
  then show "- (2 powi (e + 1)) \<le> round_real p emin emax x"
    by (simp add: r top mult.commute)
qed

lemma round_real_above_bottom:
  assumes "1 \<le> p" "emin < exponent_of emin emax x"
  shows "0 \<le> x \<Longrightarrow> 2 powi (exponent_of emin emax x) \<le> round_real p emin emax x"
    and "x \<le> 0 \<Longrightarrow> round_real p emin emax x \<le> - (2 powi (exponent_of emin emax x))"
proof -
  define e where "e = exponent_of emin emax x"
  define u :: real where "u = 2 powi (e - int p + 1)"
  have u: "0 < u" by (simp add: u_def)
  have bot: "(2::real) powi e = u * 2 ^ (p - 1)"
    unfolding u_def by (rule ulp_bottom [OF assms(1)])
  have ax: "u * 2 ^ (p - 1) \<le> \<bar>x\<bar>"
    using exponent_of_lower [OF assms(2)] by (simp add: e_def [symmetric] bot)
  have r: "round_real p emin emax x = of_int (round_even (x / u)) * u"
    by (simp add: round_real_def Let_def e_def u_def)
  { assume "0 \<le> x"
    then have "of_int (2 ^ (p - 1)) \<le> x / u"
      using ax u by (simp add: pos_le_divide_eq mult.commute)
    from round_even_mono [OF this] have "2 ^ (p - 1) \<le> round_even (x / u)"
      by (simp only: round_even_int)
    then have "2 ^ (p - 1) \<le> real_of_int (round_even (x / u))"
      by (metis of_int_le_iff of_int_numeral of_int_power)
    then have "2 ^ (p - 1) * u \<le> real_of_int (round_even (x / u)) * u"
      using u by (intro mult_right_mono) simp_all
    then show "2 powi e \<le> round_real p emin emax x"
      by (simp add: r bot mult.commute) }
  { assume "x \<le> 0"
    then have "x / u \<le> of_int (- (2 ^ (p - 1)))"
      using ax u by (simp add: pos_divide_le_eq mult.commute)
    from round_even_mono [OF this] have "round_even (x / u) \<le> - (2 ^ (p - 1))"
      by (simp only: round_even_int)
    then have "real_of_int (round_even (x / u)) \<le> - (2 ^ (p - 1))"
      by (metis of_int_le_iff of_int_minus of_int_numeral of_int_power)
    then have "real_of_int (round_even (x / u)) * u \<le> - (2 ^ (p - 1)) * u"
      using u by (intro mult_right_mono) simp_all
    then show "round_real p emin emax x \<le> - (2 powi e)"
      by (simp add: r bot mult.commute) }
qed

lemma round_real_same_exponent:
  assumes "exponent_of emin emax x = exponent_of emin emax y" "x \<le> y"
  shows "round_real p emin emax x \<le> round_real p emin emax y"
proof -
  define u :: real where "u = 2 powi (exponent_of emin emax y - int p + 1)"
  have u: "0 < u" by (simp add: u_def)
  have "x / u \<le> y / u"
    using assms(2) u by (simp add: divide_right_mono)
  from round_even_mono [OF this]
  have "real_of_int (round_even (x / u)) * u \<le> real_of_int (round_even (y / u)) * u"
    using u by (intro mult_right_mono) simp_all
  then show ?thesis
    by (simp add: round_real_def Let_def assms(1) u_def)
qed

lemma round_real_mono:
  assumes p: "1 \<le> p" and ee: "emin \<le> emax" and xy: "x \<le> y"
  shows "round_real p emin emax x \<le> round_real p emin emax y"
proof -
  consider "x \<le> 0 \<and> 0 \<le> y" | "0 \<le> x" | "y \<le> 0"
    using xy by linarith
  then show ?thesis
  proof cases
    case 1
    then show ?thesis
      using round_real_sign(1) [of y p emin emax] round_real_sign(2) [of x p emin emax]
      by linarith
  next
    case 2
    then have y0: "0 \<le> y" using xy by simp
    have le: "exponent_of emin emax x \<le> exponent_of emin emax y"
      using 2 xy by (intro exponent_of_mono [OF ee]) simp
    show ?thesis
    proof (cases "exponent_of emin emax x = exponent_of emin emax y")
      case True
      then show ?thesis using xy by (rule round_real_same_exponent)
    next
      case False
      then have lt: "exponent_of emin emax x < exponent_of emin emax y"
        using le by simp
      have hy: "exponent_of emin emax y \<le> emax" and hx: "emin \<le> exponent_of emin emax x"
        using exponent_of_bounds [OF ee] by simp_all
      have "round_real p emin emax x \<le> 2 powi (exponent_of emin emax x + 1)"
        using lt hy by (intro round_real_below_top(1) [OF ee]) simp
      also have "\<dots> \<le> 2 powi (exponent_of emin emax y)"
        using lt by (intro power_int_increasing) simp_all
      also have "\<dots> \<le> round_real p emin emax y"
        using lt hx y0 by (intro round_real_above_bottom(1) [OF p]) simp_all
      finally show ?thesis .
    qed
  next
    case 3
    then have x0: "x \<le> 0" using xy by simp
    have le: "exponent_of emin emax y \<le> exponent_of emin emax x"
      using 3 xy by (intro exponent_of_mono [OF ee]) simp
    show ?thesis
    proof (cases "exponent_of emin emax x = exponent_of emin emax y")
      case True
      then show ?thesis using xy by (rule round_real_same_exponent)
    next
      case False
      then have lt: "exponent_of emin emax y < exponent_of emin emax x"
        using le by simp
      have hx: "exponent_of emin emax x \<le> emax" and hy: "emin \<le> exponent_of emin emax y"
        using exponent_of_bounds [OF ee] by simp_all
      have "round_real p emin emax x \<le> - (2 powi (exponent_of emin emax x))"
        using lt hy x0 by (intro round_real_above_bottom(2) [OF p]) simp_all
      also have "\<dots> \<le> - (2 powi (exponent_of emin emax y + 1))"
        using lt by (simp add: power_int_increasing)
      also have "\<dots> \<le> round_real p emin emax y"
        using lt hx by (intro round_real_below_top(2) [OF ee]) simp
      finally show ?thesis .
    qed
  qed
qed

lemma round_real_exact:
  assumes p: "1 \<le> p" and ee: "emin \<le> emax"
    and x: "x = of_int m * 2 powi k" and m: "\<bar>m\<bar> \<le> 2 ^ p" and k: "emin - int p + 1 \<le> k"
  shows "round_real p emin emax x = x"
proof -
  define e where "e = exponent_of emin emax x"
  define u :: real where "u = 2 powi (e - int p + 1)"
  have u: "0 < u" by (simp add: u_def)
  have r: "round_real p emin emax x = of_int (round_even (x / u)) * u"
    by (simp add: round_real_def Let_def e_def u_def)
  have "\<exists>n. x / u = of_int n"
  proof (cases "e - int p + 1 \<le> k")
    case True
    have "(2::real) powi k = 2 powi ((e - int p + 1) + (k - (e - int p + 1)))"
      by simp
    also have "\<dots> = u * 2 powi (k - (e - int p + 1))"
      unfolding u_def by (rule power_int_add) simp
    also have "\<dots> = u * 2 ^ nat (k - (e - int p + 1))"
      using True by (simp add: power_int_nonneg_exp)
    finally have "x / u = of_int (m * 2 ^ nat (k - (e - int p + 1)))"
      using u by (simp add: x)
    then show ?thesis ..
  next
    case False
    then have ke: "k + int p \<le> e" by simp
    then have "emin < e" using k by linarith
    then have lo: "2 powi e \<le> \<bar>x\<bar>"
      unfolding e_def by (rule exponent_of_lower)
    have "\<bar>x\<bar> = real_of_int \<bar>m\<bar> * 2 powi k"
      by (simp add: x abs_mult)
    also have "\<dots> \<le> 2 ^ p * 2 powi k"
    proof -
      have "real_of_int \<bar>m\<bar> \<le> 2 ^ p"
        using m by (metis of_int_le_iff of_int_numeral of_int_power)
      then show ?thesis by (intro mult_right_mono) simp_all
    qed
    also have "\<dots> = 2 powi (k + int p)"
      by (simp add: power_int_add mult.commute)
    also have "\<dots> \<le> 2 powi e"
      using ke by (intro power_int_increasing) simp_all
    finally have ax: "\<bar>x\<bar> = 2 powi e"
      using lo by linarith
    have bot: "(2::real) powi e = u * 2 ^ (p - 1)"
      unfolding u_def by (rule ulp_bottom [OF p])
    show ?thesis
    proof (cases "0 \<le> x")
      case True
      then have "x / u = of_int (2 ^ (p - 1))"
        using ax u by (simp add: bot)
      then show ?thesis ..
    next
      case False
      then have "x = - (u * 2 ^ (p - 1))"
        using ax by (simp add: bot)
      then have "x / u = of_int (- (2 ^ (p - 1)))"
        using u by simp
      then show ?thesis ..
    qed
  qed
  then obtain n where n: "x / u = of_int n" ..
  then have "round_real p emin emax x = (x / u) * u"
    by (simp add: r round_even_int)
  then show ?thesis using u by simp
qed

lemma round_real_binade:
  assumes "emin \<le> e" "e \<le> emax" "emin < e \<Longrightarrow> 2 powi e \<le> \<bar>x\<bar>" "e < emax \<Longrightarrow> \<bar>x\<bar> < 2 powi (e + 1)"
  shows "round_real p emin emax x = of_int (round_even (x / 2 powi (e - int p + 1))) * 2 powi (e - int p + 1)"
  using exponent_of_eq [OF assms] by (simp add: round_real_def Let_def)

text \<open>
  The two formats: rounding is monotone, it keeps the numbers of the format, and it
  gives a finite value for every number of moderate size.
\<close>

lemma round_to_not_NaN: "round_to p emin emax x \<noteq> NaN"
  by (simp add: round_to_def Let_def)

lemma float32_not_NaN: "float32 x \<noteq> NaN"
  by (simp add: float32_def round_to_not_NaN)

lemma R32_mono: "x \<le> y \<Longrightarrow> R32 x \<le> R32 y"
  unfolding R32_def by (rule round_real_mono) simp_all

lemma R64_mono: "x \<le> y \<Longrightarrow> R64 x \<le> R64 y"
  unfolding R64_def by (rule round_real_mono) simp_all

lemma R32_exact:
  "x = of_int m * 2 powi k \<Longrightarrow> \<bar>m\<bar> \<le> 16777216 \<Longrightarrow> - 149 \<le> k \<Longrightarrow> R32 x = x"
  unfolding R32_def by (rule round_real_exact [where m = m and k = k]) simp_all

lemma R64_exact:
  "x = of_int m * 2 powi k \<Longrightarrow> \<bar>m\<bar> \<le> 9007199254740992 \<Longrightarrow> - 1074 \<le> k \<Longrightarrow> R64 x = x"
  unfolding R64_def by (rule round_real_exact [where m = m and k = k]) simp_all

lemma R32_int: "\<bar>n\<bar> \<le> 16777216 \<Longrightarrow> R32 (real_of_int n) = real_of_int n"
  by (rule R32_exact [where m = n and k = 0]) simp_all

lemma R64_int: "\<bar>n\<bar> \<le> 9007199254740992 \<Longrightarrow> R64 (real_of_int n) = real_of_int n"
  by (rule R64_exact [where m = n and k = 0]) simp_all

lemma R32_pow2: "- 149 \<le> k \<Longrightarrow> R32 (2 powi k) = 2 powi k" "- 149 \<le> k \<Longrightarrow> R32 (- (2 powi k)) = - (2 powi k)"
  by (rule R32_exact [where m = 1 and k = k], simp_all)
     (rule R32_exact [where m = "- 1" and k = k], simp_all)

lemma R64_pow2: "- 1074 \<le> k \<Longrightarrow> R64 (2 powi k) = 2 powi k" "- 1074 \<le> k \<Longrightarrow> R64 (- (2 powi k)) = - (2 powi k)"
  by (rule R64_exact [where m = 1 and k = k], simp_all)
     (rule R64_exact [where m = "- 1" and k = k], simp_all)

lemma R32_abs_le:
  assumes "\<bar>x\<bar> \<le> b" "R32 b = b" "R32 (- b) = - b"
  shows "\<bar>R32 x\<bar> \<le> b"
proof -
  have "R32 x \<le> R32 b" "R32 (- b) \<le> R32 x"
    using assms(1) by (auto intro!: R32_mono)
  then show ?thesis using assms(2,3) by simp
qed

lemma R64_abs_le:
  assumes "\<bar>x\<bar> \<le> b" "R64 b = b" "R64 (- b) = - b"
  shows "\<bar>R64 x\<bar> \<le> b"
proof -
  have "R64 x \<le> R64 b" "R64 (- b) \<le> R64 x"
    using assms(1) by (auto intro!: R64_mono)
  then show ?thesis using assms(2,3) by simp
qed

lemma float32_Fin: "\<bar>R32 x\<bar> < 2 powi 128 \<Longrightarrow> float32 x = Fin (R32 x)"
  by (auto simp: float32_def round_to_def R32_def Let_def)

lemma float64_Fin: "\<bar>R64 x\<bar> < 2 powi 1024 \<Longrightarrow> float64 x = Fin (R64 x)"
  by (auto simp: float64_def round_to_def R64_def Let_def)

lemma float32_small: "\<bar>x\<bar> \<le> 2 powi 64 \<Longrightarrow> float32 x = Fin (R32 x)"
proof -
  assume "\<bar>x\<bar> \<le> 2 powi 64"
  then have "\<bar>R32 x\<bar> \<le> 2 powi 64"
    by (rule R32_abs_le) (simp_all only: R32_pow2)
  also have "(2::real) powi 64 < 2 powi 128"
    by (intro power_int_strict_increasing) simp_all
  finally show ?thesis by (rule float32_Fin)
qed

lemma float64_small: "\<bar>x\<bar> \<le> 2 powi 64 \<Longrightarrow> float64 x = Fin (R64 x)"
proof -
  assume "\<bar>x\<bar> \<le> 2 powi 64"
  then have "\<bar>R64 x\<bar> \<le> 2 powi 64"
    by (rule R64_abs_le) (simp_all only: R64_pow2)
  also have "(2::real) powi 64 < 2 powi 1024"
    by (intro power_int_strict_increasing) simp_all
  finally show ?thesis by (rule float64_Fin)
qed

lemma R32_0 [simp]: "R32 0 = 0" and R32_1 [simp]: "R32 1 = 1"
  using R32_int [of 0] R32_int [of 1] by simp_all

lemma R64_0 [simp]: "R64 0 = 0" and R64_1 [simp]: "R64 1 = 1"
  using R64_int [of 0] R64_int [of 1] by simp_all

lemma R64_half: "R64 (1 / 2) = 1 / 2"
  by (rule R64_exact [where m = 1 and k = "- 1"]) simp_all

lemma float32_dyadic:
  assumes "x = of_int m * 2 powi k" "\<bar>m\<bar> \<le> 16777216" "- 149 \<le> k" "k \<le> 40"
  shows "float32 x = Fin x"
proof -
  have "\<bar>x\<bar> = real_of_int \<bar>m\<bar> * 2 powi k"
    by (simp add: assms(1) abs_mult)
  also have "\<dots> \<le> 2 powi 24 * 2 powi k"
  proof -
    have "real_of_int \<bar>m\<bar> \<le> 16777216" using assms(2) by linarith
    then show ?thesis by (intro mult_right_mono) simp_all
  qed
  also have "\<dots> = 2 powi (24 + k)"
    by (simp add: power_int_add)
  also have "\<dots> \<le> 2 powi 64"
    using assms(4) by (intro power_int_increasing) simp_all
  finally have "float32 x = Fin (R32 x)"
    by (rule float32_small)
  then show ?thesis
    using R32_exact [OF assms(1-3)] by simp
qed

lemma float64_dyadic:
  assumes "x = of_int m * 2 powi k" "\<bar>m\<bar> \<le> 9007199254740992" "- 1074 \<le> k" "k \<le> 10"
  shows "float64 x = Fin x"
proof -
  have "\<bar>x\<bar> = real_of_int \<bar>m\<bar> * 2 powi k"
    by (simp add: assms(1) abs_mult)
  also have "\<dots> \<le> 2 powi 53 * 2 powi k"
  proof -
    have "real_of_int \<bar>m\<bar> \<le> 9007199254740992" using assms(2) by linarith
    then show ?thesis by (intro mult_right_mono) simp_all
  qed
  also have "\<dots> = 2 powi (53 + k)"
    by (simp add: power_int_add)
  also have "\<dots> \<le> 2 powi 64"
    using assms(4) by (intro power_int_increasing) simp_all
  finally have "float64 x = Fin (R64 x)"
    by (rule float64_small)
  then show ?thesis
    using R64_exact [OF assms(1-3)] by simp
qed

lemma float32_int: "\<bar>n\<bar> \<le> 16777216 \<Longrightarrow> float32 (real_of_int n) = Fin (real_of_int n)"
  by (rule float32_dyadic [where m = n and k = 0]) simp_all

lemma float32_binade:
  assumes "- 126 \<le> e" "e \<le> 127" "- 126 < e \<Longrightarrow> 2 powi e \<le> \<bar>x\<bar>"
    "e < 127 \<Longrightarrow> \<bar>x\<bar> < 2 powi (e + 1)" "\<bar>x\<bar> \<le> 2 powi 64"
  shows "float32 x = Fin (of_int (round_even (x / 2 powi (e - 23))) * 2 powi (e - 23))"
  using float32_small [OF assms(5)] round_real_binade [OF assms(1-4), of 24]
  by (simp add: R32_def)

lemma f32_values:
  "float32 0 = Fin 0" "float32 1 = Fin 1" "float32 (- 1) = Fin (- 1)" "float32 5 = Fin 5"
  "float32 10 = Fin 10" "float32 (- 10) = Fin (- 10)" "float32 (- 5) = Fin (- 5)"
  "float32 35 = Fin 35" "float32 50 = Fin 50" "float32 55 = Fin 55" "float32 60 = Fin 60"
  "float32 110 = Fin 110" "float32 145 = Fin 145" "float32 220 = Fin 220" "float32 16777215 = Fin 16777215" "float32 16777216 = Fin 16777216"
  using float32_int [of 0] float32_int [of 1] float32_int [of "- 1"] float32_int [of 5]
    float32_int [of 10] float32_int [of "- 10"] float32_int [of "- 5"] float32_int [of 35]
    float32_int [of 50] float32_int [of 55] float32_int [of 60] float32_int [of 110] float32_int [of 145] float32_int [of 220]
    float32_int [of 16777215] float32_int [of 16777216]
  by simp_all

lemma f32_fractions:
  "float32 (1 / 2) = Fin (1 / 2)" "float32 (- (1 / 2)) = Fin (- (1 / 2))"
  "float32 (5 / 2) = Fin (5 / 2)" "float32 (- (15 / 2)) = Fin (- (15 / 2))"
  "float32 (5 / 8) = Fin (5 / 8)" "float32 (125 / 2) = Fin (125 / 2)"
  "float32 (275 / 2) = Fin (275 / 2)" "float32 (345 / 2) = Fin (345 / 2)"
  by (rule float32_dyadic [where m = 1 and k = "- 1"], simp_all)
     (rule float32_dyadic [where m = "- 1" and k = "- 1"], simp_all,
      rule float32_dyadic [where m = 5 and k = "- 1"], simp_all,
      rule float32_dyadic [where m = "- 15" and k = "- 1"], simp_all,
      rule float32_dyadic [where m = 5 and k = "- 3"], simp_all,
      rule float32_dyadic [where m = 125 and k = "- 1"], simp_all,
      rule float32_dyadic [where m = 275 and k = "- 1"], simp_all,
      rule float32_dyadic [where m = 345 and k = "- 1"], simp_all)

lemma f32_rounded:
  "float32 16777217 = Fin 16777216" "float32 (33554431 / 2) = Fin 16777216"
  "float32 2147483647 = Fin 2147483648" "float32 2147483648 = Fin 2147483648"
proof -
  show "float32 16777217 = Fin 16777216"
    by (subst float32_binade [where e = 24]) (simp_all add: round_even_def)
  show "float32 (33554431 / 2) = Fin 16777216"
    by (subst float32_binade [where e = 23]) (simp_all add: round_even_def)
  show "float32 2147483647 = Fin 2147483648"
    by (subst float32_binade [where e = 30]) (simp_all add: round_even_def)
  show "float32 2147483648 = Fin 2147483648"
    by (rule float32_dyadic [where m = 1 and k = 31]) simp_all
qed

lemma f64_values:
  "float64 (1 / 2) = Fin (1 / 2)" "float64 1 = Fin 1" "float64 (5 / 8) = Fin (5 / 8)"
  "float64 (4294967297 / 2) = Fin (4294967297 / 2)"
  "float64 173 = Fin 173" "float64 (291 / 2) = Fin (291 / 2)"
  "float64 (- 7) = Fin (- 7)" "float64 (- (9 / 2)) = Fin (- (9 / 2))"
  "float64 (33554433 / 2) = Fin (33554433 / 2)" "float64 (33554431 / 2) = Fin (33554431 / 2)"
  by (rule float64_dyadic [where m = 1 and k = "- 1"], simp_all)
     (rule float64_dyadic [where m = 1 and k = 0], simp_all,
      rule float64_dyadic [where m = 5 and k = "- 3"], simp_all,
      rule float64_dyadic [where m = 4294967297 and k = "- 1"], simp_all,
      rule float64_dyadic [where m = 173 and k = 0], simp_all,
      rule float64_dyadic [where m = 291 and k = "- 1"], simp_all,
      rule float64_dyadic [where m = "- 7" and k = 0], simp_all,
      rule float64_dyadic [where m = "- 9" and k = "- 1"], simp_all,
      rule float64_dyadic [where m = 33554433 and k = "- 1"], simp_all,
      rule float64_dyadic [where m = 33554431 and k = "- 1"], simp_all)

section \<open>Properties of the controller in binary floating point\<close>

lemma in_0_100_iff: "in_0_100 a \<longleftrightarrow> (\<exists>r. a = Fin r \<and> 0 \<le> r \<and> r \<le> 100)"
  by (cases a) (simp_all add: in_0_100_def)

lemma clamp_integral_range: "a \<noteq> NaN \<Longrightarrow> in_0_100 (clamp_integral a)"
  by (cases a) (auto simp: in_0_100_def clamp_integral_def)

lemma PID_Calculate_f32_integral_eq:
  "integral_f32 (snd (PID_Calculate_f32 p setpoint actual_value dt)) =
     clamp_integral (f_add float32 (integral_f32 p)
       (f_mul float32 (f_sub float32 actual_value setpoint) dt))"
  by (simp add: PID_Calculate_f32_def clamp_integral_def Let_def)

lemma f_add_finite_not_NaN: "b \<noteq> NaN \<Longrightarrow> f_add float32 (Fin x) b \<noteq> NaN"
  by (cases b) (simp_all add: float32_not_NaN)

lemma f_mul_one_not_NaN: "a \<noteq> NaN \<Longrightarrow> f_mul float32 a (Fin 1) \<noteq> NaN"
  by (cases a) (simp_all add: float32_not_NaN)

lemma PID_Calculate_f32_integral:
  assumes "in_0_100 (integral_f32 p)" "f_sub float32 actual_value setpoint \<noteq> NaN"
  shows "in_0_100 (integral_f32 (snd (PID_Calculate_f32 p setpoint actual_value (Fin 1))))"
proof -
  obtain r where r: "integral_f32 p = Fin r"
    using assms(1) by (auto simp: in_0_100_iff)
  have "f_add float32 (integral_f32 p)
      (f_mul float32 (f_sub float32 actual_value setpoint) (Fin 1)) \<noteq> NaN"
    unfolding r by (intro f_add_finite_not_NaN f_mul_one_not_NaN assms(2))
  then show ?thesis
    unfolding PID_Calculate_f32_integral_eq by (rule clamp_integral_range)
qed

lemma pid_steps_f32_integral:
  "in_0_100 (integral_f32 p) \<Longrightarrow> \<forall>(s, a) \<in> set xs. f_sub float32 a s \<noteq> NaN \<Longrightarrow>
   in_0_100 (integral_f32 (pid_steps_f32 p xs))"
proof (induction xs arbitrary: p)
  case Nil
  then show ?case by simp
next
  case (Cons x xs)
  obtain s a where x: "x = (s, a)"
    by (cases x)
  have "in_0_100 (integral_f32 (snd (PID_Calculate_f32 p s a (Fin 1))))"
    using Cons.prems by (intro PID_Calculate_f32_integral) (simp_all add: x)
  then show ?case
    using Cons.prems(2) by (simp add: x Cons.IH)
qed

lemma f_sub_NaN_iff:
  "f_sub float32 a s = NaN \<longleftrightarrow> a = NaN \<or> s = NaN \<or> (a = PInf \<and> s = PInf) \<or> (a = NInf \<and> s = NInf)"
  by (cases a; cases s) (simp_all add: f_sub_def float32_not_NaN)

text \<open>
  Claim C2, as amended: from the initialised controller, after any finite sequence of
  \<open>PID_Calculate\<close> calls with \<open>dt = 1\<close> in which no setpoint and no measurement is NaN
  and the two are never the same infinity, the integral lies between 0 and 100. This
  covers every finite setpoint and measurement, and it holds whatever the rounding
  does.
\<close>

theorem integral_bounded:
  "\<forall>(s, a) \<in> set xs.
     a \<noteq> NaN \<and> s \<noteq> NaN \<and> \<not> (a = PInf \<and> s = PInf) \<and> \<not> (a = NInf \<and> s = NInf) \<Longrightarrow>
   f_le (Fin 0) (integral_f32 (pid_steps_f32 (PID_Init_f32 p kp ki kd) xs)) \<and>
   f_le (integral_f32 (pid_steps_f32 (PID_Init_f32 p kp ki kd) xs)) (Fin 100)"
proof -
  assume "\<forall>(s, a) \<in> set xs.
     a \<noteq> NaN \<and> s \<noteq> NaN \<and> \<not> (a = PInf \<and> s = PInf) \<and> \<not> (a = NInf \<and> s = NInf)"
  then have h: "\<forall>(s, a) \<in> set xs. f_sub float32 a s \<noteq> NaN"
    by (auto simp: f_sub_NaN_iff)
  have "in_0_100 (integral_f32 (PID_Init_f32 p kp ki kd))"
    by (simp add: PID_Init_f32_def in_0_100_def)
  then have "in_0_100 (integral_f32 (pid_steps_f32 (PID_Init_f32 p kp ki kd) xs))"
    using h by (rule pid_steps_f32_integral)
  then show ?thesis
    by (simp add: in_0_100_def)
qed

theorem integral_bounded_witness:
  "f_le (Fin 0) (integral_f32 (pid_steps_f32
     (PID_Init_f32 (pid_f32 static_start_f32) (Fin 5) (Fin 1) (float32 0.01))
     [(Fin 55, Fin 65), (Fin 55, PInf), (Fin 55, Fin 20)])) \<and>
   f_le (integral_f32 (pid_steps_f32
     (PID_Init_f32 (pid_f32 static_start_f32) (Fin 5) (Fin 1) (float32 0.01))
     [(Fin 55, Fin 65), (Fin 55, PInf), (Fin 55, Fin 20)])) (Fin 100)"
proof -
  have h: "\<forall>(s, a) \<in> set [(Fin 55, Fin 65), (Fin 55, PInf), (Fin 55, Fin 20)].
      a \<noteq> NaN \<and> s \<noteq> NaN \<and> \<not> (a = PInf \<and> s = PInf) \<and> \<not> (a = NInf \<and> s = NInf)"
    by simp
  show ?thesis
    using integral_bounded [OF h, of "pid_f32 static_start_f32" "Fin 5" "Fin 1" "float32 0.01"]
    by simp
qed

text \<open>
  Claim C2 as stated fails on a measurement that is NaN, which \<open>get_temperature\<close>
  returns for a reading of 0 with the divisor 0: the sum is NaN, both tests of the
  clamp are false and the integral stays NaN. The same happens when the measurement
  and the setpoint are the same infinity.
\<close>

theorem integral_bounded_counterexample:
  "integral_f32 (pid_steps_f32
     (PID_Init_f32 (pid_f32 static_start_f32) (Fin 5) (Fin 1) (float32 0.01))
     [(Fin 55, NaN)]) = NaN \<and>
   \<not> f_le (Fin 0) (integral_f32 (pid_steps_f32
     (PID_Init_f32 (pid_f32 static_start_f32) (Fin 5) (Fin 1) (float32 0.01))
     [(Fin 55, NaN)])) \<and>
   integral_f32 (pid_steps_f32
     (PID_Init_f32 (pid_f32 static_start_f32) (Fin 5) (Fin 1) (float32 0.01))
     [(PInf, PInf)]) = NaN"
  by (simp add: PID_Calculate_f32_def PID_Init_f32_def f_sub_def Let_def)

lemma c_trunc_int: "c_trunc (real_of_int n) = n"
  by (simp add: c_trunc_def)

lemma c_trunc_abs_le: "\<bar>x\<bar> \<le> real_of_int b \<Longrightarrow> \<bar>c_trunc x\<bar> \<le> b"
  using c_trunc_mono [of x "real_of_int b"] c_trunc_mono [of "real_of_int (- b)" x]
  by (simp only: c_trunc_int) (simp add: abs_le_iff)

lemma c_trunc_ge: "real_of_int k \<le> x \<Longrightarrow> k \<le> c_trunc x"
  using c_trunc_mono [of "real_of_int k" x] by (simp add: c_trunc_int)

lemma final_clamp_nonneg: "0 \<le> max_speed \<Longrightarrow> 0 \<le> final_clamp max_speed v"
  by (simp add: final_clamp_def)

lemma final_clamp_top: "0 \<le> max_speed \<Longrightarrow> max_speed \<le> v \<Longrightarrow> final_clamp max_speed v = max_speed"
  by (simp add: final_clamp_def)

lemma clamp_output_range: "0 \<le> clamp_output out \<and> clamp_output out \<le> 100"
  by (cases out) (simp_all add: clamp_output_def)

lemma clamp_output_mono: "f_le a b \<Longrightarrow> clamp_output a \<le> clamp_output b"
  by (cases a; cases b) (auto simp: clamp_output_def)

lemma pid_output_eq:
  "out \<noteq> NaN \<Longrightarrow>
   (if f_less out (Fin 0) then Fin 0 else if f_less (Fin 100) out then Fin 100 else out)
     = Fin (clamp_output out)"
  by (cases out) (auto simp: clamp_output_def)

lemma percentage_f32_range: "0 \<le> percentage_f32 out \<and> percentage_f32 out \<le> 1"
proof -
  have c: "0 \<le> clamp_output out / 100" "clamp_output out / 100 \<le> 1"
    using clamp_output_range [of out] by simp_all
  have r: "0 \<le> R64 (clamp_output out / 100)" "R64 (clamp_output out / 100) \<le> 1"
    using R64_mono [OF c(1)] R64_mono [OF c(2)] by simp_all
  show ?thesis
    using R32_mono [OF r(1)] R32_mono [OF r(2)] by (simp add: percentage_f32_def)
qed

lemma percentage_f32_mono: "f_le a b \<Longrightarrow> percentage_f32 a \<le> percentage_f32 b"
  unfolding percentage_f32_def
  by (intro R32_mono R64_mono divide_right_mono clamp_output_mono) simp_all

lemma percentage_eq:
  assumes "out \<noteq> NaN"
  shows "to_float32 (f_div float64
      (if f_less out (Fin 0) then Fin 0 else if f_less (Fin 100) out then Fin 100 else out)
      (Fin 100)) = Fin (percentage_f32 out)"
proof -
  have c: "\<bar>clamp_output out / 100\<bar> \<le> 1"
    using clamp_output_range [of out] by simp
  have "(1::real) \<le> 2 powi 64"
    by simp
  then have "float64 (clamp_output out / 100) = Fin (R64 (clamp_output out / 100))"
    using c by (intro float64_small) linarith
  moreover have "\<bar>R64 (clamp_output out / 100)\<bar> \<le> 1"
    using c by (rule R64_abs_le) (simp, use R64_int [of "- 1"] in simp)
  then have "float32 (R64 (clamp_output out / 100)) = Fin (R32 (R64 (clamp_output out / 100)))"
    by (intro float32_small) simp
  ultimately show ?thesis
    by (simp add: pid_output_eq [OF assms] percentage_f32_def)
qed

lemma fan_speed_float_eq:
  assumes "out \<noteq> NaN" "\<bar>min_speed\<bar> \<le> 268435456" "\<bar>max_speed\<bar> \<le> 268435456"
  shows "(if f_le (Fin (percentage_f32 out)) (Fin 0) then Inr (Fin 0)
          else case int_sub max_speed min_speed of
                 Inl u \<Rightarrow> Inl u
               | Inr d \<Rightarrow>
                   Inr (f_add float32 (float32 (real_of_int min_speed))
                          (f_mul float32 (Fin (percentage_f32 out)) (float32 (real_of_int d)))))
         = Inr (Fin (fan_speed_f32 out max_speed min_speed))"
    and "\<bar>fan_speed_f32 out max_speed min_speed\<bar> \<le> 2 powi 30"
proof -
  define p where "p = percentage_f32 out"
  have p: "0 \<le> p" "p \<le> 1"
    using percentage_f32_range [of out] by (simp_all add: p_def)
  define d where "d = max_speed - min_speed"
  have d: "\<bar>real_of_int d\<bar> \<le> 2 powi 29"
  proof -
    have "\<bar>d\<bar> \<le> 536870912"
      using assms(2,3) by (simp add: d_def)
    then have "real_of_int \<bar>d\<bar> \<le> 536870912"
      by linarith
    then show ?thesis by simp
  qed
  have "- 2147483648 \<le> max_speed - min_speed \<and> max_speed - min_speed \<le> 2147483647"
    using assms(2,3) by linarith
  then have sub: "int_sub max_speed min_speed = Inr d"
    by (simp add: int_sub_def INT_MIN_def INT_MAX_def d_def)
  define D where "D = R32 (real_of_int d)"
  have D: "\<bar>D\<bar> \<le> 2 powi 29"
    unfolding D_def using d by (rule R32_abs_le) (simp_all only: R32_pow2)
  have p28: "(2::real) powi 28 \<le> 2 powi 64" and p29: "(2::real) powi 29 \<le> 2 powi 64"
    and p30: "(2::real) powi 30 \<le> 2 powi 64"
    by (intro power_int_increasing; simp)+
  have fD: "float32 (real_of_int d) = Fin D"
    unfolding D_def using d p29 by (intro float32_small) linarith
  have m: "\<bar>real_of_int min_speed\<bar> \<le> 2 powi 28"
  proof -
    have "real_of_int \<bar>min_speed\<bar> \<le> 268435456"
      using assms(2) by linarith
    then show ?thesis by simp
  qed
  define M where "M = R32 (real_of_int min_speed)"
  have M: "\<bar>M\<bar> \<le> 2 powi 28"
    unfolding M_def using m by (rule R32_abs_le) (simp_all only: R32_pow2)
  have fm: "float32 (real_of_int min_speed) = Fin M"
    unfolding M_def using m p28 by (intro float32_small) linarith
  have pD: "\<bar>p * D\<bar> \<le> 2 powi 29"
  proof -
    have "\<bar>p * D\<bar> = p * \<bar>D\<bar>"
      using p by (simp add: abs_mult)
    also have "\<dots> \<le> 1 * \<bar>D\<bar>"
      using p by (intro mult_right_mono) simp_all
    finally show ?thesis using D by simp
  qed
  define prod where "prod = R32 (p * D)"
  have prod: "\<bar>prod\<bar> \<le> 2 powi 29"
    unfolding prod_def using pD by (rule R32_abs_le) (simp_all only: R32_pow2)
  have fprod: "float32 (p * D) = Fin prod"
    unfolding prod_def using pD p29 by (intro float32_small) linarith
  have s: "\<bar>M + prod\<bar> \<le> 2 powi 30"
    using M prod by simp
  define v where "v = R32 (M + prod)"
  have v: "\<bar>v\<bar> \<le> 2 powi 30"
    unfolding v_def using s by (rule R32_abs_le) (simp_all only: R32_pow2)
  have fv: "float32 (M + prod) = Fin v"
    unfolding v_def using s p30 by (intro float32_small) linarith
  have fsf: "fan_speed_f32 out max_speed min_speed = (if p \<le> 0 then 0 else v)"
    by (simp add: fan_speed_f32_def p_def v_def prod_def D_def d_def M_def)
  show "\<bar>fan_speed_f32 out max_speed min_speed\<bar> \<le> 2 powi 30"
    using v by (simp add: fsf)
  show "(if f_le (Fin (percentage_f32 out)) (Fin 0) then Inr (Fin 0)
          else case int_sub max_speed min_speed of
                 Inl u \<Rightarrow> Inl u
               | Inr d \<Rightarrow>
                   Inr (f_add float32 (float32 (real_of_int min_speed))
                          (f_mul float32 (Fin (percentage_f32 out)) (float32 (real_of_int d)))))
         = Inr (Fin (fan_speed_f32 out max_speed min_speed))"
    by (simp add: fsf p_def [symmetric] sub fD fm fprod fv)
qed

lemma speed_of_output_f32_eq:
  assumes "out \<noteq> NaN" "\<bar>min_speed\<bar> \<le> 268435456" "\<bar>max_speed\<bar> \<le> 268435456"
  shows "speed_of_output_f32 out max_speed min_speed = Inr (speed_value out max_speed min_speed)"
proof -
  define f where "f = fan_speed_f32 out max_speed min_speed"
  have f: "\<bar>f\<bar> \<le> 2 powi 30"
    unfolding f_def by (rule fan_speed_float_eq(2) [OF assms])
  have fh: "\<bar>f + 1 / 2\<bar> \<le> 2 powi 31"
    using f by simp
  have p31: "(2::real) powi 31 \<le> 2 powi 64"
    by (intro power_int_increasing; simp)
  have fw: "float64 (f + 1 / 2) = Fin (R64 (f + 1 / 2))"
    using fh p31 by (intro float64_small) linarith
  have "\<bar>f + 1 / 2\<bar> \<le> real_of_int 1073741825"
    using f by simp
  then have "\<bar>R64 (f + 1 / 2)\<bar> \<le> real_of_int 1073741825"
    by (rule R64_abs_le) (use R64_int [of 1073741825] R64_int [of "- 1073741825"] in simp_all)
  then have "\<bar>c_trunc (R64 (f + 1 / 2))\<bar> \<le> 1073741825"
    by (rule c_trunc_abs_le)
  then have rng: "- 2147483648 \<le> c_trunc (R64 (f + 1 / 2))"
      "c_trunc (R64 (f + 1 / 2)) \<le> 2147483647"
    by linarith+
  show ?thesis
    unfolding speed_of_output_f32_def Let_def percentage_eq [OF assms(1)]
      fan_speed_float_eq(1) [OF assms]
    by (simp add: f_def [symmetric] fw rng INT_MIN_def INT_MAX_def final_clamp_def
        speed_value_def)
qed

lemma speed_value_no_demand:
  assumes "percentage_f32 out \<le> 0" "0 \<le> max_speed"
  shows "speed_value out max_speed min_speed = 0"
proof -
  have "c_trunc (R64 (1 / 2)) = 0"
    by (simp add: R64_half c_trunc_def)
  then show ?thesis
    using assms by (simp add: speed_value_def fan_speed_f32_def final_clamp_def)
qed

lemma speed_value_nonneg: "0 \<le> max_speed \<Longrightarrow> 0 \<le> speed_value out max_speed min_speed"
  unfolding speed_value_def by (rule final_clamp_nonneg)

lemma fan_speed_f32_between:
  assumes pos: "0 < percentage_f32 out"
    and lo: "0 \<le> lo" "lo \<le> 16777216" and hi: "0 \<le> hi" "hi \<le> 16777216"
    and mm: "{min_speed, max_speed} = {lo, hi}" "lo \<le> hi"
  shows "real_of_int lo \<le> fan_speed_f32 out max_speed min_speed"
    and "fan_speed_f32 out max_speed min_speed \<le> real_of_int hi"
proof -
  define p where "p = percentage_f32 out"
  have p: "0 < p" "p \<le> 1"
    using pos percentage_f32_range [of out] by (simp_all add: p_def)
  define d where "d = max_speed - min_speed"
  have mn: "\<bar>min_speed\<bar> \<le> 16777216" "\<bar>max_speed\<bar> \<le> 16777216" "\<bar>d\<bar> \<le> 16777216"
    using lo hi mm by (auto simp: d_def doubleton_eq_iff)
  have M: "R32 (real_of_int min_speed) = real_of_int min_speed"
    and D: "R32 (real_of_int d) = real_of_int d"
    using mn by (simp_all add: R32_int)
  define prod where "prod = R32 (p * real_of_int d)"
  have f: "fan_speed_f32 out max_speed min_speed = R32 (real_of_int min_speed + prod)"
    using p(1) by (simp add: fan_speed_f32_def p_def [symmetric] M d_def [symmetric] D prod_def)
  have between: "real_of_int lo \<le> real_of_int min_speed + prod \<and>
      real_of_int min_speed + prod \<le> real_of_int hi"
  proof (cases "min_speed \<le> max_speed")
    case True
    then have e: "min_speed = lo" "max_speed = hi"
      using mm by (auto simp: doubleton_eq_iff)
    have d0: "0 \<le> real_of_int d"
      using True by (simp add: d_def)
    have "0 \<le> p * real_of_int d"
      using p d0 by simp
    moreover have "p * real_of_int d \<le> 1 * real_of_int d"
      using p d0 by (intro mult_right_mono) simp_all
    ultimately have h: "0 \<le> p * real_of_int d" "p * real_of_int d \<le> real_of_int d"
      by simp_all
    have "0 \<le> prod" "prod \<le> real_of_int d"
      using R32_mono [OF h(1)] R32_mono [OF h(2)] by (simp_all add: prod_def D)
    then show ?thesis
      by (simp add: e d_def)
  next
    case False
    then have e: "min_speed = hi" "max_speed = lo"
      using mm by (auto simp: doubleton_eq_iff)
    have d0: "real_of_int d \<le> 0"
      using False by (simp add: d_def)
    have "p * real_of_int d \<le> 0"
      using p d0 by (intro mult_nonneg_nonpos) simp_all
    moreover have "1 * real_of_int d \<le> p * real_of_int d"
      using p d0 by (intro mult_right_mono_neg) simp_all
    ultimately have h: "p * real_of_int d \<le> 0" "real_of_int d \<le> p * real_of_int d"
      by simp_all
    have "prod \<le> 0" "real_of_int d \<le> prod"
      using R32_mono [OF h(1)] R32_mono [OF h(2)] by (simp_all add: prod_def D)
    then show ?thesis
      by (simp add: e d_def)
  qed
  have "R32 (real_of_int lo) \<le> R32 (real_of_int min_speed + prod)"
    "R32 (real_of_int min_speed + prod) \<le> R32 (real_of_int hi)"
    using between by (auto intro!: R32_mono)
  moreover have "R32 (real_of_int lo) = real_of_int lo" "R32 (real_of_int hi) = real_of_int hi"
    using lo hi by (simp_all add: R32_int)
  ultimately show "real_of_int lo \<le> fan_speed_f32 out max_speed min_speed"
    and "fan_speed_f32 out max_speed min_speed \<le> real_of_int hi"
    by (simp_all add: f)
qed

lemma rounded_speed_ge:
  assumes "real_of_int k \<le> f" "\<bar>k\<bar> \<le> 16777216"
  shows "k \<le> c_trunc (R64 (f + 1 / 2))"
proof -
  have "R64 (real_of_int k) \<le> R64 (f + 1 / 2)"
    using assms(1) by (intro R64_mono) simp
  moreover have "R64 (real_of_int k) = real_of_int k"
    using assms(2) by (intro R64_int) simp
  ultimately show ?thesis
    by (intro c_trunc_ge) simp
qed

lemma speed_value_band:
  assumes "0 \<le> min_speed" "min_speed \<le> max_speed" "max_speed \<le> 16777216"
  shows "speed_value out max_speed min_speed = 0 \<or>
     (min_speed \<le> speed_value out max_speed min_speed \<and>
      speed_value out max_speed min_speed \<le> max_speed)"
proof (cases "percentage_f32 out \<le> 0")
  case True
  then show ?thesis
    using assms by (simp add: speed_value_no_demand)
next
  case False
  then have pos: "0 < percentage_f32 out" by simp
  have "real_of_int min_speed \<le> fan_speed_f32 out max_speed min_speed"
    using assms by (intro fan_speed_f32_between(1) [OF pos, where hi = max_speed]) auto
  then have "min_speed \<le> c_trunc (R64 (fan_speed_f32 out max_speed min_speed + 1 / 2))"
    using assms by (intro rounded_speed_ge) simp_all
  then show ?thesis
    using assms by (simp add: speed_value_def final_clamp_def)
qed

lemma fan_speed_f32_mono:
  assumes "min_speed \<le> max_speed" "\<bar>min_speed\<bar> \<le> 16777216" "\<bar>max_speed\<bar> \<le> 16777216"
    "0 < percentage_f32 a" "f_le a b"
  shows "fan_speed_f32 a max_speed min_speed \<le> fan_speed_f32 b max_speed min_speed"
proof -
  have pp: "percentage_f32 a \<le> percentage_f32 b"
    using assms(5) by (rule percentage_f32_mono)
  have "R32 0 \<le> R32 (real_of_int (max_speed - min_speed))"
    using assms(1) by (intro R32_mono) simp
  then have D: "0 \<le> R32 (real_of_int (max_speed - min_speed))"
    by simp
  have "percentage_f32 a * R32 (real_of_int (max_speed - min_speed))
      \<le> percentage_f32 b * R32 (real_of_int (max_speed - min_speed))"
    using pp D by (rule mult_right_mono)
  then have "R32 (R32 (real_of_int min_speed) +
        R32 (percentage_f32 a * R32 (real_of_int (max_speed - min_speed))))
      \<le> R32 (R32 (real_of_int min_speed) +
        R32 (percentage_f32 b * R32 (real_of_int (max_speed - min_speed))))"
    by (intro R32_mono add_left_mono)
  then show ?thesis
    using assms(4) pp by (simp add: fan_speed_f32_def)
qed

lemma speed_value_mono:
  assumes "0 \<le> max_speed" "max_speed \<le> 16777216" "\<bar>min_speed\<bar> \<le> 16777216" "f_le a b"
  shows "speed_value a max_speed min_speed \<le> speed_value b max_speed min_speed"
proof (cases "percentage_f32 a \<le> 0")
  case True
  then show ?thesis
    using assms(1) by (simp add: speed_value_no_demand speed_value_nonneg)
next
  case False
  then have pa: "0 < percentage_f32 a" by simp
  then have pb: "0 < percentage_f32 b"
    using percentage_f32_mono [OF assms(4)] by simp
  show ?thesis
  proof (cases "min_speed \<le> max_speed")
    case True
    have "fan_speed_f32 a max_speed min_speed \<le> fan_speed_f32 b max_speed min_speed"
      using True assms pa by (intro fan_speed_f32_mono) simp_all
    then have "c_trunc (R64 (fan_speed_f32 a max_speed min_speed + 1 / 2))
        \<le> c_trunc (R64 (fan_speed_f32 b max_speed min_speed + 1 / 2))"
      by (intro c_trunc_mono R64_mono) simp
    then show ?thesis
      unfolding speed_value_def using assms(1) by (intro final_clamp_mono)
  next
    case False
    have top: "speed_value x max_speed min_speed = max_speed" if "0 < percentage_f32 x" for x
    proof -
      have "real_of_int max_speed \<le> fan_speed_f32 x max_speed min_speed"
        using False assms
        by (intro fan_speed_f32_between(1) [OF that, where hi = min_speed]) auto
      then have "max_speed \<le> c_trunc (R64 (fan_speed_f32 x max_speed min_speed + 1 / 2))"
        using assms by (intro rounded_speed_ge) simp_all
      then show ?thesis
        unfolding speed_value_def using assms(1) by (intro final_clamp_top)
    qed
    show ?thesis
      by (simp add: top pa pb)
  qed
qed

lemmas speed_eval = speed_of_output_f32_def Let_def int_sub_def INT_MIN_def INT_MAX_def
  c_trunc_def f32_values f32_fractions f32_rounded f64_values

lemmas pid_eval = PID_Calculate_f32_def PID_Init_f32_def f_sub_def Let_def f32_values f32_fractions

lemma calculate_speed_set_f32_speed:
  "fst (calculate_speed_set_f32 g st t mt tt ms mn) =
     speed_of_output_f32
       (fst (PID_Calculate_f32 (pid_f32 (ensure_init_f32 g st)) (float32 (real_of_int tt)) t
          (Fin 1))) ms mn"
  by (simp add: calculate_speed_set_f32_def Let_def split: prod.split)

lemma quarter_gains_output:
  "fst (PID_Calculate_f32 (pid_f32 (ensure_init_f32 quarter_gains static_start_f32))
     (float32 (real_of_int 55)) (Fin 65) (Fin 1)) = Fin (125 / 2)"
  by (simp add: quarter_gains_def static_start_f32_def ensure_init_f32_def pid_eval)

lemma NaN_output:
  "fst (PID_Calculate_f32 (pid_f32 (ensure_init_f32 quarter_gains static_start_f32))
     (float32 (real_of_int 55)) NaN (Fin 1)) = NaN"
  by (simp add: quarter_gains_def static_start_f32_def ensure_init_f32_def pid_eval)

text \<open>
  Claim C10, as amended: whenever \<open>0 \<le> min_speed \<le> max_speed \<le> 16777216\<close>, the bound
  \<open>2 ^ 24\<close> up to which binary32 holds every integer, and the PID output is not NaN, the
  conversion to \<open>int\<close> is defined and the speed that \<open>calculate_speed_set\<close> returns is 0
  or lies between \<open>min_speed\<close> and \<open>max_speed\<close>.
\<close>

theorem speed_zero_or_in_band:
  assumes "0 \<le> min_speed" and "min_speed \<le> max_speed" and "max_speed \<le> 16777216"
    and "fst (PID_Calculate_f32 (pid_f32 (ensure_init_f32 g st))
           (float32 (real_of_int target_temp)) current_temp (Fin 1)) \<noteq> NaN"
  shows "\<exists>s. fst (calculate_speed_set_f32 g st current_temp max_temp target_temp
             max_speed min_speed) = Inr s \<and>
           (s = 0 \<or> (min_speed \<le> s \<and> s \<le> max_speed))"
proof -
  have "\<bar>min_speed\<bar> \<le> 268435456" "\<bar>max_speed\<bar> \<le> 268435456"
    using assms(1-3) by simp_all
  from speed_of_output_f32_eq [OF assms(4) this]
  show ?thesis
    using speed_value_band [OF assms(1-3)]
    by (simp add: calculate_speed_set_f32_speed)
qed

theorem speed_zero_or_in_band_witness:
  "(0::int) \<le> 35 \<and> (35::int) \<le> 255 \<and> (255::int) \<le> 16777216 \<and>
   fst (PID_Calculate_f32 (pid_f32 (ensure_init_f32 quarter_gains static_start_f32))
     (float32 (real_of_int 55)) (Fin 65) (Fin 1)) \<noteq> NaN \<and>
   fst (calculate_speed_set_f32 quarter_gains static_start_f32 (Fin 65) 120 55 255 35)
     = Inr 173 \<and>
   (173::int) \<noteq> 0 \<and> (35::int) \<le> 173 \<and> (173::int) \<le> 255"
proof -
  have h1: "(0::int) \<le> 35" and h2: "(35::int) \<le> 255" and h3: "(255::int) \<le> 16777216"
    by simp_all
  have h4: "fst (PID_Calculate_f32 (pid_f32 (ensure_init_f32 quarter_gains static_start_f32))
      (float32 (real_of_int 55)) (Fin 65) (Fin 1)) \<noteq> NaN"
    by (simp only: quarter_gains_output) simp
  have v: "fst (calculate_speed_set_f32 quarter_gains static_start_f32 (Fin 65) 120 55 255 35)
      = Inr 173"
    unfolding calculate_speed_set_f32_speed quarter_gains_output
    by (simp add: speed_eval)
  show ?thesis
    using h4 v speed_zero_or_in_band [OF h1 h2 h3 h4, of 120] by simp
qed

text \<open>
  Claim C10 as stated fails from \<open>2 ^ 24 + 1\<close> on: with
  \<open>min_speed = max_speed = 16777217\<close> the conversion of \<open>min_speed\<close> to \<open>float\<close> gives
  16777216, and that is the speed returned, positive and below \<open>min_speed\<close>. And with a
  temperature that is NaN the output is NaN and its conversion to \<open>int\<close> is undefined.
\<close>

theorem speed_zero_or_in_band_counterexample:
  "(0::int) \<le> 16777217 \<and>
   fst (calculate_speed_set_f32 quarter_gains static_start_f32 (Fin 65) 120 55
     16777217 16777217) = Inr 16777216 \<and>
   (16777216::int) \<noteq> 0 \<and> (16777216::int) < 16777217 \<and>
   fst (calculate_speed_set_f32 quarter_gains static_start_f32 NaN 120 55 255 35)
     = Inl Conversion_out_of_range"
  unfolding calculate_speed_set_f32_speed quarter_gains_output NaN_output
  by (simp add: speed_eval)

text \<open>
  Claim C6, as amended: for a fixed \<open>max_speed\<close> between 0 and 16777216 and a fixed
  \<open>min_speed\<close> between \<open>- 16777216\<close> and 16777216, the mapped speed is defined for every
  PID output that is not NaN and does not decrease when the output increases.
\<close>

theorem speed_monotone:
  assumes "0 \<le> max_speed" and "max_speed \<le> 16777216" and "\<bar>min_speed\<bar> \<le> 16777216"
    and "f_le a b"
  shows "\<exists>sa sb. speed_of_output_f32 a max_speed min_speed = Inr sa \<and>
           speed_of_output_f32 b max_speed min_speed = Inr sb \<and> sa \<le> sb"
proof -
  have n: "a \<noteq> NaN" "b \<noteq> NaN"
    using assms(4) by (cases a; cases b; simp)+
  have m: "\<bar>min_speed\<bar> \<le> 268435456" "\<bar>max_speed\<bar> \<le> 268435456"
    using assms(1-3) by simp_all
  show ?thesis
    using speed_of_output_f32_eq [OF n(1) m] speed_of_output_f32_eq [OF n(2) m]
      speed_value_mono [OF assms]
    by simp
qed

theorem speed_monotone_witness:
  "(0::int) \<le> 255 \<and> (255::int) \<le> 16777216 \<and> \<bar>35::int\<bar> \<le> 16777216 \<and>
   f_le (Fin 50) (Fin (125 / 2)) \<and>
   speed_of_output_f32 (Fin 50) 255 35 = Inr 145 \<and>
   speed_of_output_f32 (Fin (125 / 2)) 255 35 = Inr 173 \<and> (145::int) \<le> 173"
proof -
  have h1: "(0::int) \<le> 255" and h2: "(255::int) \<le> 16777216"
    and h3: "\<bar>35::int\<bar> \<le> 16777216" and h4: "f_le (Fin 50) (Fin (125 / 2))"
    by simp_all
  have v: "speed_of_output_f32 (Fin 50) 255 35 = Inr 145"
    "speed_of_output_f32 (Fin (125 / 2)) 255 35 = Inr 173"
    by (simp_all add: speed_eval)
  show ?thesis
    using v speed_monotone [OF h1 h2 h3 h4] by simp
qed

text \<open>
  Claim C6 as stated fails when both speeds are negative, where the output 50 is mapped
  to 0 and the larger output 100 to \<open>max_speed = - 5\<close>, and it fails beyond \<open>2 ^ 24\<close>:
  with \<open>max_speed = 16777216\<close> and \<open>min_speed = 16777217\<close> the output 50 is mapped to
  16777216 and the larger output 100 to 16777215. With \<open>max_speed = 2147483647\<close> and
  \<open>min_speed = 0\<close> the output 100 gives the floating speed \<open>2 ^ 31\<close>, whose conversion
  to \<open>int\<close> is undefined.
\<close>

theorem speed_monotone_counterexample:
  "f_le (Fin 50) (Fin 100) \<and>
   speed_of_output_f32 (Fin 50) (- 5) (- 10) = Inr 0 \<and>
   speed_of_output_f32 (Fin 100) (- 5) (- 10) = Inr (- 5) \<and>
   speed_of_output_f32 (Fin 50) 16777216 16777217 = Inr 16777216 \<and>
   speed_of_output_f32 (Fin 100) 16777216 16777217 = Inr 16777215 \<and>
   speed_of_output_f32 (Fin 100) 2147483647 0 = Inl Conversion_out_of_range"
  by (simp add: speed_eval)

end
